theory Spec2Isabelle
  imports Complex_Main "HOL-Library.AList" "HOL-Library.Sublist"
begin

section \<open>Values of the Python program\<close>

text \<open>
  \<^verbatim>\<open>process_events.py\<close> works on values decoded from JSON: the response of the remote
  feed, the persisted store file and the values of the posts' fields. They are untyped
  in the source, so the model has one type of JSON values and writes out what each Python
  operation does on every kind of value, raising included.

  A Python \<^verbatim>\<open>dict\<close> built by the decoder is the list of its items in insertion order;
  \<^verbatim>\<open>None\<close> is \<open>JNull\<close>. A Python \<^verbatim>\<open>float\<close> is given by the rational number it
  denotes: the program does no arithmetic on numbers, it only tests them for zero and
  compares them as dictionary keys. (The non-standard constants NaN and Infinity, which are
  not JSON, have no representation here.) Strings are lists of characters.
\<close>

datatype json =
    JNull
  | JBool bool
  | JInt int
  | JFloat rat
  | JStr string
  | JArr "json list"
  | JObj "(string \<times> json) list"

text \<open>The exceptions that the modelled code can raise.\<close>

datatype error =
    TypeError | KeyError | AttributeError
  | IOError | UnicodeDecodeError
  | JSONDecodeError | ValueError | RecursionError
  | LibraryError

text \<open>
  Python's \<^verbatim>\<open>JSONDecodeError\<close> and \<^verbatim>\<open>UnicodeDecodeError\<close> are subclasses of
  \<^verbatim>\<open>ValueError\<close>; here \<open>ValueError\<close> is a \<^verbatim>\<open>ValueError\<close> that is neither, so that an
  \<^verbatim>\<open>except\<close> clause that names \<^verbatim>\<open>JSONDecodeError\<close> catches \<open>JSONDecodeError\<close> and not
  \<open>ValueError\<close>. \<open>LibraryError\<close> is an exception of the \<^verbatim>\<open>ics\<close> library.
\<close>

text \<open>
  A function that can raise returns \<open>Inl\<close> of the exception or \<open>Inr\<close> of its value.
  \<open>ebind\<close> runs one statement after another: the first exception ends the computation.
\<close>

definition ebind :: "error + 'a \<Rightarrow> ('a \<Rightarrow> error + 'b) \<Rightarrow> error + 'b" where
  "ebind m f = (case m of Inl e \<Rightarrow> Inl e | Inr x \<Rightarrow> f x)"

text \<open>Truth value of a value, as \<^verbatim>\<open>if x:\<close> and \<^verbatim>\<open>not x\<close> take it.\<close>

fun truthy :: "json \<Rightarrow> bool" where
  "truthy JNull = False"
| "truthy (JBool b) = b"
| "truthy (JInt i) = (i \<noteq> 0)"
| "truthy (JFloat r) = (r \<noteq> 0)"
| "truthy (JStr s) = (s \<noteq> [])"
| "truthy (JArr xs) = (xs \<noteq> [])"
| "truthy (JObj kvs) = (kvs \<noteq> [])"

text \<open>\<^verbatim>\<open>needle in hay\<close> for two strings: \<open>needle\<close> occurs in \<open>hay\<close> as a substring.\<close>

fun is_substr :: "string \<Rightarrow> string \<Rightarrow> bool" where
  "is_substr needle [] = (needle = [])"
| "is_substr needle (c # cs) = (prefix needle (c # cs) \<or> is_substr needle cs)"

text \<open>
  \<^verbatim>\<open>k in x\<close> for a string \<open>k\<close>: a key of a dict, an element of a list, a substring of
  a string; \<^verbatim>\<open>TypeError\<close> (not iterable) on None, a bool or a number.
\<close>

fun py_contains :: "string \<Rightarrow> json \<Rightarrow> error + bool" where
  "py_contains k (JObj kvs) = Inr (k \<in> fst ` set kvs)"
| "py_contains k (JArr xs) = Inr (JStr k \<in> set xs)"
| "py_contains k (JStr s) = Inr (is_substr k s)"
| "py_contains k _ = Inl TypeError"

text \<open>
  \<^verbatim>\<open>x[k]\<close> for a string \<open>k\<close>: the value of a dict, \<^verbatim>\<open>KeyError\<close> when the key is
  missing; \<^verbatim>\<open>TypeError\<close> on everything else (a list or a string wants an integer, the
  rest is not subscriptable).
\<close>

fun py_getitem :: "json \<Rightarrow> string \<Rightarrow> error + json" where
  "py_getitem (JObj kvs) k = (case map_of kvs k of None \<Rightarrow> Inl KeyError | Some v \<Rightarrow> Inr v)"
| "py_getitem _ k = Inl TypeError"

text \<open>
  \<^verbatim>\<open>x.get(k, d)\<close>: the value of a dict or the default \<open>d\<close>; every other value has no
  attribute \<^verbatim>\<open>get\<close>. \<^verbatim>\<open>x.get(k)\<close> is \<^verbatim>\<open>x.get(k, None)\<close>.
\<close>

fun py_get :: "json \<Rightarrow> string \<Rightarrow> json \<Rightarrow> error + json" where
  "py_get (JObj kvs) k d = Inr (case map_of kvs k of None \<Rightarrow> d | Some v \<Rightarrow> v)"
| "py_get _ k d = Inl AttributeError"

text \<open>
  \<^verbatim>\<open>for y in x\<close>: the elements of a list, the keys of a dict, the one-character strings
  of a string; \<^verbatim>\<open>TypeError\<close> on None, a bool or a number.
\<close>

fun py_iter :: "json \<Rightarrow> error + json list" where
  "py_iter (JArr xs) = Inr xs"
| "py_iter (JObj kvs) = Inr (map (\<lambda>kv. JStr (fst kv)) kvs)"
| "py_iter (JStr s) = Inr (map (\<lambda>c. JStr [c]) s)"
| "py_iter _ = Inl TypeError"

subsection \<open>String methods\<close>

text \<open>
  \<^verbatim>\<open>s.replace(old, new)\<close> for a non-empty \<open>old\<close>: every occurrence, leftmost first and
  without overlap. (The source calls it with the literal \<^verbatim>\<open>'(Coming Soon) '\<close> only; for
  an empty \<open>old\<close> this function returns \<open>s\<close>, and is not what Python does.)
\<close>

fun replace_str :: "string \<Rightarrow> string \<Rightarrow> string \<Rightarrow> string" where
  "replace_str old new [] = []"
| "replace_str old new (c # cs) =
     (if old \<noteq> [] \<and> prefix old (c # cs)
      then new @ replace_str old new (drop (length old - 1) cs)
      else c # replace_str old new cs)"

text \<open>
  The characters that \<^verbatim>\<open>str.isspace\<close> accepts among the first 256 code points:
  U+0009 to U+000D, U+001C to U+0020, U+0085 and U+00A0.
\<close>

definition is_space :: "char \<Rightarrow> bool" where
  "is_space c =
     (let n = (of_char c :: nat)
      in (9 \<le> n \<and> n \<le> 13) \<or> (28 \<le> n \<and> n \<le> 32) \<or> n = 133 \<or> n = 160)"

definition strip_str :: "string \<Rightarrow> string" where
  "strip_str s = rev (dropWhile is_space (rev (dropWhile is_space s)))"

text \<open>The two methods on an arbitrary value: only a string has them.\<close>

fun py_replace :: "json \<Rightarrow> string \<Rightarrow> string \<Rightarrow> error + json" where
  "py_replace (JStr s) old new = Inr (JStr (replace_str old new s))"
| "py_replace _ old new = Inl AttributeError"

fun py_strip :: "json \<Rightarrow> error + json" where
  "py_strip (JStr s) = Inr (JStr (strip_str s))"
| "py_strip _ = Inl AttributeError"

section \<open>The persisted files\<close>

text \<open>
  What the program can find under a file name: nothing, something that cannot be opened or
  read (\<^verbatim>\<open>IOError\<close>: a directory, no permission), bytes that are not UTF-8, or a text.
\<close>

datatype file_state = Missing | Unreadable | Undecodable | Text string

type_synonym fs = "string \<Rightarrow> file_state"

definition CLEANED_DATA_FILE :: string where
  "CLEANED_DATA_FILE = ''cleaned_data.json''"

definition ICS_FILE :: string where
  "ICS_FILE = ''events.ics''"

text \<open>
  \<^verbatim>\<open>json.loads\<close> on a string belongs to the Python library and is a parameter \<open>loads\<close> of
  the model: \<open>Inr v\<close> is the decoded value, \<open>Inl JSONDecodeError\<close> the exception for a
  text that is not JSON, and any other \<open>Inl e\<close> another exception of the decoder
  (\<^verbatim>\<open>RecursionError\<close> on deep nesting, \<^verbatim>\<open>ValueError\<close> on a number with too many digits).

  \<^verbatim>\<open>load_from_file\<close>: a missing file, an empty file, and a file that raises
  \<^verbatim>\<open>IOError\<close> or \<^verbatim>\<open>JSONDecodeError\<close> give the empty list. Every other exception leaves
  the function, since the \<^verbatim>\<open>except\<close> clause names these two only: the
  \<^verbatim>\<open>UnicodeDecodeError\<close> that \<^verbatim>\<open>f.read()\<close> raises on a file that is not UTF-8, and the
  other exceptions of the decoder.
\<close>

definition load_from_file :: "(string \<Rightarrow> error + json) \<Rightarrow> fs \<Rightarrow> string \<Rightarrow> error + json" where
  "load_from_file loads fs filename =
     (case fs filename of
        Missing \<Rightarrow> Inr (JArr [])
      | Unreadable \<Rightarrow> Inr (JArr [])
      | Undecodable \<Rightarrow> Inl UnicodeDecodeError
      | Text content \<Rightarrow>
          if content = [] then Inr (JArr [])
          else (case loads content of
                  Inr v \<Rightarrow> Inr v
                | Inl e \<Rightarrow>
                    if e = JSONDecodeError \<or> e = IOError then Inr (JArr []) else Inl e))"

text \<open>
  \<^verbatim>\<open>with open(filename, 'w', encoding='utf-8') as f:\<close> followed by writing to \<open>f\<close>.
  Whether the file can be opened for writing is the parameter \<open>writable\<close>; when it cannot,
  \<^verbatim>\<open>open\<close> raises \<^verbatim>\<open>IOError\<close> and nothing changes. Opening truncates the file, before
  anything is written: \<open>produced\<close> is the text that reaches the file afterwards, and the
  exception that ended the writing, if there was one. The result is the file system
  afterwards and how the statement ended.
\<close>

definition write_file ::
  "(string \<Rightarrow> bool) \<Rightarrow> string \<Rightarrow> string \<times> error option \<Rightarrow> fs \<Rightarrow> fs \<times> (error + unit)" where
  "write_file writable filename produced fs =
     (if \<not> writable filename then (fs, Inl IOError)
      else (fs(filename := Text (fst produced)),
            case snd produced of None \<Rightarrow> Inr () | Some e \<Rightarrow> Inl e))"

text \<open>
  \<^verbatim>\<open>save_to_file\<close>: \<^verbatim>\<open>json.dump\<close> is the library's, a parameter \<open>dumps\<close> that gives the
  text written and the exception, if any.
\<close>

definition save_to_file ::
  "(string \<Rightarrow> bool) \<Rightarrow> (json \<Rightarrow> string \<times> error option) \<Rightarrow> json \<Rightarrow> string \<Rightarrow> fs
     \<Rightarrow> fs \<times> (error + unit)" where
  "save_to_file writable dumps data filename fs = write_file writable filename (dumps data) fs"

section \<open>The normalizer: \<^verbatim>\<open>clean_data\<close>\<close>

text \<open>
  The guard of \<^verbatim>\<open>clean_data\<close>, with Python's left-to-right \<^verbatim>\<open>or\<close>:
  \<^verbatim>\<open>not raw_data or 'data' not in raw_data or 'posts' not in raw_data['data']
   or 'nodes' not in raw_data['data']['posts']\<close>.
  Its value \<open>True\<close> is the early \<^verbatim>\<open>return []\<close>.
\<close>

definition shape_missing :: "json \<Rightarrow> error + bool" where
  "shape_missing raw_data =
     (if \<not> truthy raw_data then Inr True
      else ebind (py_contains ''data'' raw_data) (\<lambda>has_data.
        if \<not> has_data then Inr True
        else ebind (py_getitem raw_data ''data'') (\<lambda>data.
          ebind (py_contains ''posts'' data) (\<lambda>has_posts.
            if \<not> has_posts then Inr True
            else ebind (py_getitem data ''posts'') (\<lambda>posts.
              ebind (py_contains ''nodes'' posts) (\<lambda>has_nodes.
                Inr (\<not> has_nodes)))))))"

text \<open>
  The value of a field, \<^verbatim>\<open>json.loads(field_value_str)\<close> under
  \<^verbatim>\<open>except (json.JSONDecodeError, TypeError)\<close>: \<^verbatim>\<open>json.loads\<close> raises \<^verbatim>\<open>TypeError\<close>
  on a value that is not a string and \<^verbatim>\<open>JSONDecodeError\<close> on a string that is not JSON,
  and in both cases the value is used as it is. Every other exception of the decoder
  leaves the function.
\<close>

definition decode_value :: "(string \<Rightarrow> error + json) \<Rightarrow> json \<Rightarrow> error + json" where
  "decode_value loads field_value_str =
     (case field_value_str of
        JStr s \<Rightarrow>
          (case loads s of
             Inr v \<Rightarrow> Inr v
           | Inl e \<Rightarrow>
               if e = JSONDecodeError \<or> e = TypeError then Inr field_value_str else Inl e)
      | _ \<Rightarrow> Inr field_value_str)"

text \<open>
  The loop over the fields of one post. The state is the pair of \<^verbatim>\<open>cleaned_event['begin']\<close>
  and \<^verbatim>\<open>cleaned_event['end']\<close>. Every value that is not \<^verbatim>\<open>None\<close> is decoded, whatever
  the key of the field.
\<close>

fun fields_loop ::
  "(string \<Rightarrow> error + json) \<Rightarrow> json list \<Rightarrow> json \<times> json \<Rightarrow> error + json \<times> json" where
  "fields_loop loads [] be = Inr be"
| "fields_loop loads (field # rest) be =
     ebind (py_get field ''key'' JNull) (\<lambda>field_key.
       ebind (py_get field ''value'' JNull) (\<lambda>field_value_str.
         if field_value_str = JNull then fields_loop loads rest be
         else ebind (decode_value loads field_value_str) (\<lambda>field_value.
           if field_key = JStr ''start_date''
             then fields_loop loads rest (field_value, snd be)
           else if field_key = JStr ''end_date''
             then fields_loop loads rest (fst be, field_value)
           else fields_loop loads rest be)))"

text \<open>
  The fields that the loop visits:
  \<^verbatim>\<open>if 'fields' in post and post['fields']: for field in post['fields']\<close>.
\<close>

definition post_fields :: "json \<Rightarrow> error + json list" where
  "post_fields post =
     ebind (py_contains ''fields'' post) (\<lambda>has_fields.
       if \<not> has_fields then Inr []
       else ebind (py_getitem post ''fields'') (\<lambda>fields.
         if \<not> truthy fields then Inr [] else py_iter fields))"

text \<open>
  The body of the loop over the posts: \<open>Some\<close> of the cleaned event when it is appended
  to \<^verbatim>\<open>cleaned_events\<close>, \<open>None\<close> when it is dropped for want of a start time.
\<close>

definition clean_post :: "(string \<Rightarrow> error + json) \<Rightarrow> json \<Rightarrow> error + json option" where
  "clean_post loads post =
     ebind (py_get post ''id'' JNull) (\<lambda>post_id.
     ebind (py_get post ''title'' (JStr ''No Title'')) (\<lambda>title.
     ebind (py_replace title ''(Coming Soon) '' []) (\<lambda>replaced.
     ebind (py_strip replaced) (\<lambda>summary.
     ebind (py_get post ''description'' (JStr [])) (\<lambda>descr.
     ebind (py_strip descr) (\<lambda>stripped_descr.
     ebind (py_get post ''url'' (JStr [])) (\<lambda>post_url.
     ebind (post_fields post) (\<lambda>fields.
     ebind (fields_loop loads fields (JNull, JNull)) (\<lambda>be.
       Inr (if truthy (fst be)
            then Some (JObj [(''id'', post_id), (''summary'', summary),
                             (''description'', stripped_descr), (''url'', post_url),
                             (''begin'', fst be), (''end'', snd be)])
            else None))))))))))"

fun clean_posts :: "(string \<Rightarrow> error + json) \<Rightarrow> json list \<Rightarrow> error + json list" where
  "clean_posts loads [] = Inr []"
| "clean_posts loads (post # rest) =
     ebind (clean_post loads post) (\<lambda>cleaned.
       ebind (clean_posts loads rest) (\<lambda>cleaned_events.
         Inr (case cleaned of Some cleaned_event \<Rightarrow> cleaned_event # cleaned_events
                            | None \<Rightarrow> cleaned_events)))"

definition clean_data :: "(string \<Rightarrow> error + json) \<Rightarrow> json \<Rightarrow> error + json list" where
  "clean_data loads raw_data =
     ebind (shape_missing raw_data) (\<lambda>missing.
       if missing then Inr []
       else ebind (py_getitem raw_data ''data'') (\<lambda>data.
         ebind (py_getitem data ''posts'') (\<lambda>posts.
           ebind (py_getitem posts ''nodes'') (\<lambda>nodes.
             ebind (py_iter nodes) (clean_posts loads)))))"

section \<open>The store: \<^verbatim>\<open>events_dict\<close>\<close>

text \<open>
  The keys of a Python dict are compared by \<^verbatim>\<open>==\<close> and must be hashable: \<^verbatim>\<open>True\<close>,
  \<^verbatim>\<open>1\<close> and \<^verbatim>\<open>1.0\<close> are one key, a list or a dict raises \<^verbatim>\<open>TypeError\<close>. \<open>hash_key\<close>
  gives the key that a value stands for. The dict itself is the list of its items in
  insertion order; \<^verbatim>\<open>d[k] = v\<close> is \<open>AList.update\<close>, which replaces the value of a key that
  is there and appends an item for a key that is not.
\<close>

datatype hkey = KNone | KNum rat | KStr string

fun hash_key :: "json \<Rightarrow> error + hkey" where
  "hash_key JNull = Inr KNone"
| "hash_key (JBool b) = Inr (KNum (if b then 1 else 0))"
| "hash_key (JInt i) = Inr (KNum (of_int i))"
| "hash_key (JFloat r) = Inr (KNum r)"
| "hash_key (JStr s) = Inr (KStr s)"
| "hash_key (JArr xs) = Inl TypeError"
| "hash_key (JObj kvs) = Inl TypeError"

type_synonym store = "(hkey \<times> json) list"

text \<open>
  \<^verbatim>\<open>{event['id']: event for event in existing_events_list if event.get('id')}\<close>,
  from the dict built so far.
\<close>

fun build_store :: "json list \<Rightarrow> store \<Rightarrow> error + store" where
  "build_store [] events_dict = Inr events_dict"
| "build_store (event # rest) events_dict =
     ebind (py_get event ''id'' JNull) (\<lambda>event_id.
       if truthy event_id
       then ebind (py_getitem event ''id'') (\<lambda>k.
              ebind (hash_key k) (\<lambda>h.
                build_store rest (AList.update h event events_dict)))
       else build_store rest events_dict)"

text \<open>
  The merge loop of \<^verbatim>\<open>main\<close> (step 5), from the dict and the two counters so far.
\<close>

fun merge :: "json list \<Rightarrow> store \<Rightarrow> nat \<Rightarrow> nat \<Rightarrow> error + store \<times> nat \<times> nat" where
  "merge [] events_dict new_count updated_count = Inr (events_dict, new_count, updated_count)"
| "merge (event # rest) events_dict new_count updated_count =
     ebind (py_get event ''id'' JNull) (\<lambda>event_id.
       if \<not> truthy event_id then merge rest events_dict new_count updated_count
       else ebind (hash_key event_id) (\<lambda>h.
         if h \<in> fst ` set events_dict
         then merge rest (AList.update h event events_dict) new_count (updated_count + 1)
         else merge rest (AList.update h event events_dict) (new_count + 1) updated_count))"

section \<open>The calendar: \<^verbatim>\<open>create_ics_file\<close>\<close>

text \<open>
  The \<^verbatim>\<open>ics\<close> library is not part of the program. An \<^verbatim>\<open>Event\<close> is given by the values
  that the program assigns to it; whether the library takes them (it parses the dates) is
  the parameter \<open>accepts\<close>. Writing the calendar, \<^verbatim>\<open>f.writelines(cal)\<close>, is the parameter
  \<open>serialize\<close>: the text that reaches the file and the exception that ended the writing, if
  there was one.
\<close>

record ics_event =
  ev_uid :: json
  ev_name :: json
  ev_begin :: json
  ev_end :: "json option"
  ev_description :: json
  ev_url :: "json option"

text \<open>The body of the \<^verbatim>\<open>try\<close>: any exception in it is caught by \<^verbatim>\<open>except Exception\<close>.\<close>

definition render_event :: "(ics_event \<Rightarrow> bool) \<Rightarrow> json \<Rightarrow> error + ics_event" where
  "render_event accepts event_data =
     ebind (py_getitem event_data ''id'') (\<lambda>i.
     ebind (py_getitem event_data ''summary'') (\<lambda>s.
     ebind (py_getitem event_data ''begin'') (\<lambda>b.
     ebind (py_getitem event_data ''end'') (\<lambda>e.
     ebind (py_getitem event_data ''description'') (\<lambda>d.
     ebind (py_getitem event_data ''url'') (\<lambda>u.
       let event = \<lparr>ev_uid = i, ev_name = s, ev_begin = b,
                    ev_end = (if truthy e then Some e else None),
                    ev_description = d,
                    ev_url = (if truthy u then Some u else None)\<rparr>
       in if accepts event then Inr event else Inl LibraryError))))))"

text \<open>
  The loop over the events. The handler evaluates \<^verbatim>\<open>event_data.get('summary')\<close> for its
  message, which raises again when the event is not a dict.
\<close>

fun render_events ::
  "(ics_event \<Rightarrow> bool) \<Rightarrow> json list \<Rightarrow> ics_event list \<Rightarrow> error + ics_event list" where
  "render_events accepts [] cal = Inr cal"
| "render_events accepts (event_data # rest) cal =
     (case render_event accepts event_data of
        Inr event \<Rightarrow> render_events accepts rest (cal @ [event])
      | Inl _ \<Rightarrow> ebind (py_get event_data ''summary'' JNull) (\<lambda>_.
                  render_events accepts rest cal))"

text \<open>
  The result is the file system afterwards and how the call ended. The file is opened, and
  so truncated, only when the calendar has an event; the calendar is serialized after that.
\<close>

definition create_ics_file ::
  "(ics_event \<Rightarrow> bool) \<Rightarrow> (ics_event list \<Rightarrow> string \<times> error option) \<Rightarrow> (string \<Rightarrow> bool)
     \<Rightarrow> json list \<Rightarrow> string \<Rightarrow> fs \<Rightarrow> fs \<times> (error + unit)" where
  "create_ics_file accepts serialize writable events filename fs =
     (case render_events accepts events [] of
        Inl e \<Rightarrow> (fs, Inl e)
      | Inr cal \<Rightarrow>
          if cal = [] then (fs, Inr ())
          else write_file writable filename (serialize cal) fs)"

section \<open>The run: \<^verbatim>\<open>main\<close>\<close>

text \<open>
  Step 1: the store of the run is built from what \<^verbatim>\<open>load_from_file\<close> returns.
\<close>

definition load_store :: "(string \<Rightarrow> error + json) \<Rightarrow> fs \<Rightarrow> error + store" where
  "load_store loads fs =
     ebind (load_from_file loads fs CLEANED_DATA_FILE) (\<lambda>existing_events_list.
       ebind (py_iter existing_events_list) (\<lambda>events. build_store events []))"

text \<open>Steps 4 and 5: the store after the merge, which is skipped for an empty list.\<close>

definition merge_new :: "store \<Rightarrow> json list \<Rightarrow> error + store" where
  "merge_new events_dict newly_cleaned_events =
     (if newly_cleaned_events = [] then Inr events_dict
      else ebind (merge newly_cleaned_events events_dict 0 0) (\<lambda>r. Inr (fst r)))"

text \<open>
  The store of a run after its merge step, for the response \<open>raw_response_data\<close> of the
  fetch.
\<close>

definition merged_store :: "(string \<Rightarrow> error + json) \<Rightarrow> fs \<Rightarrow> json \<Rightarrow> error + store" where
  "merged_store loads fs raw_response_data =
     ebind (load_store loads fs) (\<lambda>events_dict.
       ebind (clean_data loads raw_response_data) (\<lambda>newly_cleaned_events.
         merge_new events_dict newly_cleaned_events))"

text \<open>
  \<^verbatim>\<open>main\<close>. The fetch is outside the program: its result \<open>raw_response_data\<close> is a
  parameter, \<open>JNull\<close> when \<^verbatim>\<open>fetch_data\<close> returns \<^verbatim>\<open>None\<close>. The messages that the
  program prints are not modelled.
\<close>

definition main ::
  "(string \<Rightarrow> error + json) \<Rightarrow> (json \<Rightarrow> string \<times> error option) \<Rightarrow> (ics_event \<Rightarrow> bool)
     \<Rightarrow> (ics_event list \<Rightarrow> string \<times> error option) \<Rightarrow> (string \<Rightarrow> bool) \<Rightarrow> json \<Rightarrow> fs
     \<Rightarrow> fs \<times> (error + unit)" where
  "main loads dumps accepts serialize writable raw_response_data fs =
     (case load_store loads fs of
        Inl e \<Rightarrow> (fs, Inl e)
      | Inr events_dict \<Rightarrow>
          if \<not> truthy raw_response_data then (fs, Inr ())
          else (case clean_data loads raw_response_data of
                  Inl e \<Rightarrow> (fs, Inl e)
                | Inr newly_cleaned_events \<Rightarrow>
                    (case merge_new events_dict newly_cleaned_events of
                       Inl e \<Rightarrow> (fs, Inl e)
                     | Inr merged \<Rightarrow>
                         let final_events_list = map snd merged;
                             saved = save_to_file writable dumps (JArr final_events_list)
                                       CLEANED_DATA_FILE fs
                         in (case snd saved of
                               Inl e \<Rightarrow> (fst saved, Inl e)
                             | Inr _ \<Rightarrow>
                                 create_ics_file accepts serialize writable final_events_list
                                   ICS_FILE (fst saved)))))"

section \<open>Notions of the specification\<close>

text \<open>
  An event has a non-empty id when \<^verbatim>\<open>event.get('id')\<close> is true, and a non-null begin when
  \<^verbatim>\<open>event.get('begin')\<close> is not \<^verbatim>\<open>None\<close>.
\<close>

definition has_id :: "json \<Rightarrow> bool" where
  "has_id event = (case py_get event ''id'' JNull of Inr v \<Rightarrow> truthy v | Inl _ \<Rightarrow> False)"

definition has_begin :: "json \<Rightarrow> bool" where
  "has_begin event = (case py_get event ''begin'' JNull of Inr v \<Rightarrow> v \<noteq> JNull | Inl _ \<Rightarrow> False)"

text \<open>The identity invariant of the store, as the specification words it.\<close>

definition identity_invariant :: "store \<Rightarrow> bool" where
  "identity_invariant events_dict = list_all (\<lambda>event. has_id event \<and> has_begin event) (map snd events_dict)"

text \<open>
  The posts of a payload that has the expected shape: the list that the loop of
  \<^verbatim>\<open>clean_data\<close> runs over.
\<close>

definition raw_posts :: "json \<Rightarrow> json list" where
  "raw_posts raw_data =
     (case ebind (py_getitem raw_data ''data'') (\<lambda>data.
             ebind (py_getitem data ''posts'') (\<lambda>posts.
               ebind (py_getitem posts ''nodes'') py_iter))
      of Inr posts \<Rightarrow> posts | Inl _ \<Rightarrow> [])"

text \<open>
  The start dates that a post record carries: the values, other than null, of its fields
  with the key \<^verbatim>\<open>start_date\<close>. The start-date field of a post is absent or null when
  this list is empty.
\<close>

definition field_value :: "json \<Rightarrow> json" where
  "field_value field = (case py_get field ''value'' JNull of Inr v \<Rightarrow> v | Inl _ \<Rightarrow> JNull)"

definition is_start_field :: "json \<Rightarrow> bool" where
  "is_start_field field \<longleftrightarrow>
     py_get field ''key'' JNull = Inr (JStr ''start_date'') \<and> field_value field \<noteq> JNull"

definition start_date_values :: "json \<Rightarrow> json list" where
  "start_date_values post =
     (case post_fields post of
        Inr field_list \<Rightarrow> map field_value (filter is_start_field field_list)
      | Inl _ \<Rightarrow> [])"

text \<open>
  The items that a list of incoming events writes into the store, in order: one for each
  event with a true and hashable id.
\<close>

fun entries :: "json list \<Rightarrow> store" where
  "entries [] = []"
| "entries (event # rest) =
     (case ebind (py_get event ''id'' JNull) (\<lambda>event_id.
             if truthy event_id then ebind (hash_key event_id) (\<lambda>h. Inr [(h, event)])
             else Inr [])
      of Inr kvs \<Rightarrow> kvs @ entries rest | Inl _ \<Rightarrow> entries rest)"

definition upds :: "store \<Rightarrow> store \<Rightarrow> store" where
  "upds kvs events_dict = fold (\<lambda>kv. AList.update (fst kv) (snd kv)) kvs events_dict"

subsection \<open>Example data\<close>

text \<open>
  \<^verbatim>\<open>json.loads\<close> on the texts that the examples below use. On a thousand opening brackets
  the decoder of CPython exceeds its recursion limit and raises \<^verbatim>\<open>RecursionError\<close>; every
  other text that is not in the table counts as not JSON.
\<close>

definition loads_tab :: "string \<Rightarrow> error + json" where
  "loads_tab s =
     (if s = replicate 1000 CHR ''['' then Inl RecursionError
      else (case map_of
         [(''[]'', JArr []),
          (''null'', JNull),
          (''\"2024-01-01T10:00:00\"'', JStr ''2024-01-01T10:00:00''),
          (''[{\"id\": \"A\", \"begin\": null}]'',
             JArr [JObj [(''id'', JStr ''A''), (''begin'', JNull)]])] s
        of Some v \<Rightarrow> Inr v | None \<Rightarrow> Inl JSONDecodeError))"

text \<open>
  Writing a calendar with the \<^verbatim>\<open>ics\<close> library, as far as the examples need it: the
  library serializes the whole calendar before it writes the first line, and it raises
  there on an event whose name or url is not a string, which the assignments
  \<^verbatim>\<open>event.name = ...\<close> and \<^verbatim>\<open>event.url = ...\<close> take without a check.
\<close>

fun is_str :: "json \<Rightarrow> bool" where
  "is_str (JStr s) = True"
| "is_str _ = False"

definition serialize_demo :: "ics_event list \<Rightarrow> string \<times> error option" where
  "serialize_demo cal =
     (if list_all (\<lambda>event. is_str (ev_name event) \<and>
                      (case ev_url event of None \<Rightarrow> True | Some u \<Rightarrow> is_str u)) cal
      then (''BEGIN:VCALENDAR'', None)
      else ([], Some LibraryError))"

text \<open>An event of the store whose url is the number 5, and the post that it comes from.\<close>

definition url5_post :: json where
  "url5_post = JObj [(''id'', JStr ''x1''), (''title'', JStr ''Demo''), (''url'', JInt 5),
     (''fields'', JArr [JObj [(''key'', JStr ''start_date''),
                              (''value'', JStr ''\"2024-01-01T10:00:00\"'')]])]"

definition url5_payload :: json where
  "url5_payload = JObj [(''data'', JObj [(''posts'', JObj [(''nodes'', JArr [url5_post])])])]"

definition url5_event :: json where
  "url5_event = JObj [(''id'', JStr ''x1''), (''summary'', JStr ''Demo''),
     (''description'', JStr []), (''url'', JInt 5),
     (''begin'', JStr ''2024-01-01T10:00:00''), (''end'', JNull)]"

text \<open>The payload of the end-to-end scenario of the specification.\<close>

definition demo_post :: json where
  "demo_post = JObj [(''id'', JStr ''x1''), (''title'', JStr ''(Coming Soon) Demo''),
     (''fields'', JArr [JObj [(''key'', JStr ''start_date''),
                              (''value'', JStr ''\"2024-01-01T10:00:00\"'')]])]"

definition demo_payload :: json where
  "demo_payload = JObj [(''data'', JObj [(''posts'', JObj [(''nodes'', JArr [demo_post])])])]"

definition demo_event :: json where
  "demo_event = JObj [(''id'', JStr ''x1''), (''summary'', JStr ''Demo''),
     (''description'', JStr []), (''url'', JStr []),
     (''begin'', JStr ''2024-01-01T10:00:00''), (''end'', JNull)]"


section \<open>Basic facts\<close>

lemma ebind_Inl [simp]: "ebind (Inl e) f = Inl e"
  by (simp add: ebind_def)

lemma ebind_Inr [simp]: "ebind (Inr x) f = f x"
  by (simp add: ebind_def)

lemma ebind_eq_Inr: "ebind m f = Inr y \<longleftrightarrow> (\<exists>x. m = Inr x \<and> f x = Inr y)"
  by (cases m) simp_all

lemma py_get_Inr: "py_get x k d = Inr v \<Longrightarrow> \<exists>kvs. x = JObj kvs"
  by (cases x) simp_all

lemma not_thousand: "length s \<noteq> 1000 \<Longrightarrow> s \<noteq> replicate 1000 c"
  by auto

lemma loads_tab_empty_list: "loads_tab ''[]'' = Inr (JArr [])"
  by (simp add: loads_tab_def not_thousand)

lemma loads_tab_date:
  "loads_tab ''\"2024-01-01T10:00:00\"'' = Inr (JStr ''2024-01-01T10:00:00'')"
  by (simp add: loads_tab_def not_thousand)

lemma loads_tab_store:
  "loads_tab ''[{\"id\": \"A\", \"begin\": null}]'' =
     Inr (JArr [JObj [(''id'', JStr ''A''), (''begin'', JNull)]])"
  by (simp add: loads_tab_def not_thousand)

lemma loads_tab_deep: "loads_tab (replicate 1000 CHR ''['') = Inl RecursionError"
  by (simp add: loads_tab_def)

lemma clean_post_demo: "clean_post loads_tab demo_post = Inr (Some demo_event)"
  by (simp add: demo_post_def demo_event_def clean_post_def post_fields_def decode_value_def
      loads_tab_date strip_str_def is_space_def)

lemma clean_data_demo: "clean_data loads_tab demo_payload = Inr [demo_event]"
  by (simp add: clean_data_def shape_missing_def demo_payload_def clean_post_demo)

lemma clean_post_url5: "clean_post loads_tab url5_post = Inr (Some url5_event)"
  by (simp add: url5_post_def url5_event_def clean_post_def post_fields_def decode_value_def
      loads_tab_date strip_str_def is_space_def)

lemma clean_data_url5: "clean_data loads_tab url5_payload = Inr [url5_event]"
  by (simp add: clean_data_def shape_missing_def url5_payload_def clean_post_url5)

section \<open>Loading the store\<close>

text \<open>
  Where \<^verbatim>\<open>load_from_file\<close> recovers: the store file is absent, cannot be read, is empty,
  or holds a text on which \<^verbatim>\<open>json.loads\<close> raises \<^verbatim>\<open>JSONDecodeError\<close>.
\<close>

lemma load_recovery:
  assumes "fs filename = Missing \<or> fs filename = Unreadable \<or> fs filename = Text [] \<or>
           (\<exists>content. fs filename = Text content \<and> loads content = Inl JSONDecodeError)"
  shows "load_from_file loads fs filename = Inr (JArr [])"
  using assms by (auto simp: load_from_file_def)

text \<open>
  C5. Load recovery. The \<^verbatim>\<open>except\<close> clause of \<^verbatim>\<open>load_from_file\<close> names
  \<^verbatim>\<open>JSONDecodeError\<close> and \<^verbatim>\<open>IOError\<close> only. A store file that holds a thousand opening
  brackets is not JSON, and \<^verbatim>\<open>json.loads\<close> raises \<^verbatim>\<open>RecursionError\<close> on it; a store file
  that is not UTF-8 raises \<^verbatim>\<open>UnicodeDecodeError\<close> when it is read. In both cases
  \<^verbatim>\<open>load_from_file\<close> raises and does not return the empty list.
\<close>

theorem load_raises_on_corrupt_file:
  "load_from_file loads_tab (\<lambda>f. Text (replicate 1000 CHR ''['')) CLEANED_DATA_FILE =
     Inl RecursionError \<and>
   load_from_file loads_tab (\<lambda>f. Undecodable) CLEANED_DATA_FILE = Inl UnicodeDecodeError"
  by (simp add: load_from_file_def loads_tab_deep)

section \<open>The run without data\<close>

text \<open>
  C8. No-data no-op: when the fetch returns no data (\<^verbatim>\<open>not raw_response_data\<close>), the run
  leaves the file system as it was: neither the store file nor the calendar file is
  written. It returns normally, unless building the store from the loaded file had
  already raised.
\<close>

theorem no_data_noop:
  assumes "\<not> truthy raw_response_data"
  shows "main loads dumps accepts serialize writable raw_response_data fs =
           (fs, case load_store loads fs of Inl e \<Rightarrow> Inl e | Inr events_dict \<Rightarrow> Inr ())"
  using assms by (simp add: main_def split: sum.splits)

theorem no_data_noop_witness:
  "\<not> truthy JNull \<and>
   main loads_tab (\<lambda>j. (''[]'', None)) (\<lambda>e. True) serialize_demo (\<lambda>f. True) JNull
     (\<lambda>f. if f = CLEANED_DATA_FILE then Text ''[]'' else Missing) =
   (\<lambda>f. if f = CLEANED_DATA_FILE then Text ''[]'' else Missing, Inr ())"
  using no_data_noop [of JNull loads_tab "\<lambda>j. (''[]'', None)" "\<lambda>e. True" serialize_demo
      "\<lambda>f. True" "\<lambda>f. if f = CLEANED_DATA_FILE then Text ''[]'' else Missing"]
  by (simp add: load_store_def load_from_file_def loads_tab_empty_list)

section \<open>The calendar file\<close>

lemma render_events_none:
  assumes "\<forall>event_data \<in> set events. \<forall>event. render_event accepts event_data \<noteq> Inr event"
  shows "render_events accepts events cal = Inr cal' \<Longrightarrow> cal' = cal"
  using assms
proof (induction events arbitrary: cal)
  case Nil
  then show ?case by simp
next
  case (Cons event_data rest)
  then show ?case
    by (auto simp: ebind_eq_Inr split: sum.splits)
qed

text \<open>
  Where the guard of \<^verbatim>\<open>create_ics_file\<close> holds: when the \<^verbatim>\<open>try\<close> body fails for every
  event of the list, or the list is empty, the file system stays as it was, also when the
  handler itself raises.
\<close>

lemma empty_render_guard:
  assumes "\<forall>event_data \<in> set events. \<forall>event. render_event accepts event_data \<noteq> Inr event"
  shows "fst (create_ics_file accepts serialize writable events filename fs) = fs"
  using render_events_none [OF assms, of "[]"]
  by (auto simp: create_ics_file_def split: sum.splits)

text \<open>
  C6. Empty-render guard. The guard tests \<^verbatim>\<open>cal.events\<close>, the events that passed the
  \<^verbatim>\<open>try\<close> body, and the file is opened before the calendar is serialized. The event of a
  feed post whose url is the number 5 passes the \<^verbatim>\<open>try\<close> body and cannot be serialized:
  the calendar has no entry that can be rendered, and \<^verbatim>\<open>create_ics_file\<close> replaces the
  calendar file by an empty file and raises.
\<close>

theorem unserializable_entry_empties_calendar:
  "clean_data loads_tab url5_payload = Inr [url5_event] \<and>
   fst (create_ics_file (\<lambda>event. True) serialize_demo (\<lambda>f. True) [url5_event] ICS_FILE
          (\<lambda>f. Text ''BEGIN:VCALENDAR'')) ICS_FILE = Text [] \<and>
   snd (create_ics_file (\<lambda>event. True) serialize_demo (\<lambda>f. True) [url5_event] ICS_FILE
          (\<lambda>f. Text ''BEGIN:VCALENDAR'')) = Inl LibraryError"
  by (simp add: clean_data_url5 create_ics_file_def render_event_def url5_event_def
      serialize_demo_def write_file_def)

section \<open>The shape of the payload\<close>

text \<open>
  C7. Normalizer shape guard. The guard tests \<^verbatim>\<open>'posts' not in raw_data['data']\<close> without
  asking what \<^verbatim>\<open>raw_data['data']\<close> is: on the payload \<^verbatim>\<open>{"data": null}\<close>, in which the
  keys \<^verbatim>\<open>posts\<close> and \<^verbatim>\<open>nodes\<close> are absent, \<^verbatim>\<open>clean_data\<close> raises \<^verbatim>\<open>TypeError\<close> and
  does not return the empty list.
\<close>

theorem shape_guard_data_null:
  "clean_data loads (JObj [(''data'', JNull)]) = Inl TypeError"
  by (simp add: clean_data_def shape_missing_def)

text \<open>
  C9. Normalizer totality. A post whose title is null passes the shape check, and
  \<^verbatim>\<open>post.get('title', 'No Title')\<close> is then \<^verbatim>\<open>None\<close>, on which \<^verbatim>\<open>.replace\<close> raises
  \<^verbatim>\<open>AttributeError\<close>: \<^verbatim>\<open>clean_data\<close> raises and returns no list.
\<close>

theorem null_title_raises:
  "shape_missing (JObj [(''data'', JObj [(''posts'', JObj [(''nodes'',
      JArr [JObj [(''id'', JStr ''x1''), (''title'', JNull)]])])])]) = Inr False \<and>
   clean_data loads (JObj [(''data'', JObj [(''posts'', JObj [(''nodes'',
      JArr [JObj [(''id'', JStr ''x1''), (''title'', JNull)]])])])]) = Inl AttributeError"
  by (simp add: clean_data_def shape_missing_def clean_post_def)


section \<open>Updates of an association list\<close>

lemma update_commute:
  "k \<in> fst ` set al \<Longrightarrow> k \<noteq> k' \<Longrightarrow>
   AList.update k v (AList.update k' v' al) = AList.update k' v' (AList.update k v al)"
  by (induction al) auto

lemma upds_Nil [simp]: "upds [] d = d"
  by (simp add: upds_def)

lemma upds_Cons [simp]: "upds (kv # kvs) d = upds kvs (AList.update (fst kv) (snd kv) d)"
  by (simp add: upds_def)

lemma upds_append [simp]: "upds (kvs @ kvs') d = upds kvs' (upds kvs d)"
  by (simp add: upds_def)

lemma keys_upds: "fst ` set (upds kvs d) = fst ` set kvs \<union> fst ` set d"
  by (induction kvs arbitrary: d) (auto simp: dom_update)

lemma update_upds_update:
  "fst ` set kvs \<subseteq> fst ` set d \<Longrightarrow>
   AList.update k v (upds kvs (AList.update k v d)) = AList.update k v (upds kvs d)"
proof (induction kvs arbitrary: d)
  case Nil
  then show ?case by simp
next
  case (Cons kv kvs)
  show ?case
  proof (cases "fst kv = k")
    case True
    then show ?thesis by simp
  next
    case False
    from Cons.prems have in_d: "fst kv \<in> fst ` set d" by simp
    have sub: "fst ` set kvs \<subseteq> fst ` set (AList.update (fst kv) (snd kv) d)"
      using Cons.prems by (auto simp: dom_update)
    have "AList.update (fst kv) (snd kv) (AList.update k v d) =
          AList.update k v (AList.update (fst kv) (snd kv) d)"
      using update_commute [OF in_d False] .
    then show ?thesis
      using Cons.IH [OF sub] by simp
  qed
qed

lemma upds_idem: "upds kvs (upds kvs d) = upds kvs d"
proof (induction kvs rule: rev_induct)
  case Nil
  then show ?case by simp
next
  case (snoc kv kvs)
  have sub: "fst ` set kvs \<subseteq> fst ` set (upds kvs d)"
    by (simp add: keys_upds)
  have "upds (kvs @ [kv]) (upds (kvs @ [kv]) d) =
        AList.update (fst kv) (snd kv) (upds kvs (AList.update (fst kv) (snd kv) (upds kvs d)))"
    by simp
  also have "\<dots> = AList.update (fst kv) (snd kv) (upds kvs (upds kvs d))"
    using update_upds_update [OF sub] .
  also have "\<dots> = upds (kvs @ [kv]) d"
    by (simp add: snoc.IH)
  finally show ?case .
qed

lemma length_update_if:
  "length (AList.update k v al) = (if k \<in> fst ` set al then length al else Suc (length al))"
  by (induction al) auto

lemma values_update: "snd ` set (AList.update k v al) \<subseteq> insert v (snd ` set al)"
  by (induction al) auto

section \<open>The merge loop\<close>

text \<open>What one step of the loop does with an event that has a true, hashable id.\<close>

lemma merge_step:
  assumes "py_get event ''id'' JNull = Inr event_id" "truthy event_id"
    "hash_key event_id = Inr h"
  shows "merge (event # rest) d n u =
           (if h \<in> fst ` set d then merge rest (AList.update h event d) n (u + 1)
            else merge rest (AList.update h event d) (n + 1) u)"
  using assms by simp

lemma merge_skip:
  assumes "py_get event ''id'' JNull = Inr event_id" "\<not> truthy event_id"
  shows "merge (event # rest) d n u = merge rest d n u"
  using assms by simp

text \<open>The three ways in which the head of a list on which the loop returns is treated.\<close>

lemma merge_Cons_cases:
  assumes "merge (event # rest) d n u = Inr r"
  obtains (skip) event_id where "py_get event ''id'' JNull = Inr event_id" "\<not> truthy event_id"
      "merge rest d n u = Inr r" "entries (event # rest) = entries rest" "\<not> has_id event"
  | (upd) event_id h where "py_get event ''id'' JNull = Inr event_id" "truthy event_id"
      "hash_key event_id = Inr h" "h \<in> fst ` set d"
      "merge rest (AList.update h event d) n (u + 1) = Inr r"
      "entries (event # rest) = (h, event) # entries rest" "has_id event"
  | (new) event_id h where "py_get event ''id'' JNull = Inr event_id" "truthy event_id"
      "hash_key event_id = Inr h" "h \<notin> fst ` set d"
      "merge rest (AList.update h event d) (n + 1) u = Inr r"
      "entries (event # rest) = (h, event) # entries rest" "has_id event"
proof -
  from assms obtain event_id where g: "py_get event ''id'' JNull = Inr event_id"
    by (auto simp: ebind_eq_Inr)
  show ?thesis
  proof (cases "truthy event_id")
    case False
    with assms g show ?thesis
      by (intro skip [of event_id]) (simp_all add: has_id_def)
  next
    case True
    with assms g obtain h where h: "hash_key event_id = Inr h"
      by (auto simp: ebind_eq_Inr)
    show ?thesis
    proof (cases "h \<in> fst ` set d")
      case True
      with assms g h \<open>truthy event_id\<close> show ?thesis
        by (intro upd [of event_id h]) (simp_all add: has_id_def)
    next
      case False
      with assms g h \<open>truthy event_id\<close> show ?thesis
        by (intro new [of event_id h]) (simp_all add: has_id_def)
    qed
  qed
qed

lemma merge_upds:
  "merge events d n u = Inr r \<Longrightarrow> fst r = upds (entries events) d"
proof (induction events arbitrary: d n u)
  case Nil
  then show ?case by auto
next
  case (Cons event rest)
  from Cons.prems show ?case
    by (cases rule: merge_Cons_cases) (use Cons.IH in \<open>simp_all del: merge.simps entries.simps\<close>)
qed

lemma merge_has_id:
  "merge events d n u = Inr r \<Longrightarrow> length (entries events) = length (filter has_id events)"
proof (induction events arbitrary: d n u)
  case Nil
  then show ?case by simp
next
  case (Cons event rest)
  from Cons.prems show ?case
    by (cases rule: merge_Cons_cases) (use Cons.IH in \<open>simp_all del: merge.simps entries.simps\<close>)
qed

lemma merge_again:
  "merge events d n u = Inr r \<Longrightarrow> fst ` set (entries events) \<subseteq> fst ` set d' \<Longrightarrow>
   merge events d' n' u' = Inr (upds (entries events) d', n', u' + length (entries events))"
proof (induction events arbitrary: d n u d' n' u')
  case Nil
  then show ?case by simp
next
  case (Cons event rest)
  from Cons.prems(1) show ?case
  proof (cases rule: merge_Cons_cases)
    case (skip event_id)
    with Cons.IH [OF skip(3)] Cons.prems(2) show ?thesis
      by (simp add: merge_skip del: merge.simps entries.simps)
  next
    case (upd event_id h)
    with Cons.prems(2) have in_d': "h \<in> fst ` set d'" by simp
    from upd Cons.prems(2)
    have sub: "fst ` set (entries rest) \<subseteq> fst ` set (AList.update h event d')"
      by (auto simp: dom_update)
    show ?thesis
      using Cons.IH [OF upd(5) sub] upd in_d'
      by (simp add: merge_step del: merge.simps entries.simps)
  next
    case (new event_id h)
    with Cons.prems(2) have in_d': "h \<in> fst ` set d'" by simp
    from new Cons.prems(2)
    have sub: "fst ` set (entries rest) \<subseteq> fst ` set (AList.update h event d')"
      by (auto simp: dom_update)
    show ?thesis
      using Cons.IH [OF new(5) sub] new in_d'
      by (simp add: merge_step del: merge.simps entries.simps)
  qed
qed

lemma merge_counts:
  "merge events d n u = Inr (d', n', u') \<Longrightarrow>
   length d' + n = length d + n' \<and> n' + u' = n + u + length (filter has_id events) \<and>
   fst ` set d \<subseteq> fst ` set d'"
proof (induction events arbitrary: d n u)
  case Nil
  then show ?case by simp
next
  case (Cons event rest)
  from Cons.prems show ?case
  proof (cases rule: merge_Cons_cases)
    case (skip event_id)
    with Cons.IH [OF skip(3)] show ?thesis by simp
  next
    case (upd event_id h)
    with Cons.IH [OF upd(5)] show ?thesis
      by (auto simp: length_update_if dom_update)
  next
    case (new event_id h)
    with Cons.IH [OF new(5)] show ?thesis
      by (auto simp: length_update_if dom_update)
  qed
qed


lemma merge_distinct:
  "merge events d n u = Inr r \<Longrightarrow> distinct (map fst d) \<Longrightarrow> distinct (map fst (fst r))"
proof (induction events arbitrary: d n u)
  case Nil
  then show ?case by auto
next
  case (Cons event rest)
  from Cons.prems(1) show ?case
    by (cases rule: merge_Cons_cases)
      (use Cons.IH Cons.prems(2) in \<open>simp_all add: distinct_update del: merge.simps entries.simps\<close>)
qed

text \<open>Two events for the examples: the store of the specification's merge scenario.\<close>

lemma merge_example:
  "merge [JObj [(''id'', JStr ''A''), (''summary'', JStr ''new'')],
          JObj [(''id'', JStr ''B'')], JObj [(''id'', JStr [])]]
     [(KStr ''A'', JObj [(''id'', JStr ''A''), (''summary'', JStr ''old'')])] 0 0 =
   Inr ([(KStr ''A'', JObj [(''id'', JStr ''A''), (''summary'', JStr ''new'')]),
         (KStr ''B'', JObj [(''id'', JStr ''B'')])], 1, 1)"
  by simp

text \<open>
  C1. Idempotence of the merge: when merging a list of events into a store returns, merging
  the same list into the resulting store returns the same store, with the new counter 0
  and every event that has a non-empty id counted as updated.
\<close>

theorem merge_idempotent:
  assumes "merge events d 0 0 = Inr (d1, n1, u1)"
  shows "merge events d1 0 0 = Inr (d1, 0, length (filter has_id events))"
proof -
  from merge_upds [OF assms] have d1: "d1 = upds (entries events) d" by simp
  have sub: "fst ` set (entries events) \<subseteq> fst ` set d1"
    by (simp add: d1 keys_upds)
  from merge_again [OF assms sub, of 0 0]
  have "merge events d1 0 0 = Inr (upds (entries events) d1, 0, length (entries events))"
    by simp
  then show ?thesis
    by (simp add: d1 upds_idem merge_has_id [OF assms])
qed

theorem merge_idempotent_witness:
  "merge [JObj [(''id'', JStr ''A''), (''summary'', JStr ''new'')],
          JObj [(''id'', JStr ''B'')], JObj [(''id'', JStr [])]]
     [(KStr ''A'', JObj [(''id'', JStr ''A''), (''summary'', JStr ''new'')]),
      (KStr ''B'', JObj [(''id'', JStr ''B'')])] 0 0 =
   Inr ([(KStr ''A'', JObj [(''id'', JStr ''A''), (''summary'', JStr ''new'')]),
         (KStr ''B'', JObj [(''id'', JStr ''B'')])], 0, 2)"
  using merge_idempotent [OF merge_example] by (simp add: has_id_def)



text \<open>
  C10. Merge size conservation: when the merge returns, the store has as many entries more
  than before as the new counter says, the two counters add up to the number of incoming
  events with a non-empty id, and every key of the store before is a key of the store
  afterwards.
\<close>

theorem merge_size:
  assumes "merge events d 0 0 = Inr (d', new_count, updated_count)"
  shows "length d' = length d + new_count \<and>
         new_count + updated_count = length (filter has_id events) \<and>
         fst ` set d \<subseteq> fst ` set d'"
  using merge_counts [OF assms] by simp

theorem merge_size_witness:
  "length [(KStr ''A'', JObj [(''id'', JStr ''A''), (''summary'', JStr ''new'')]),
           (KStr ''B'', JObj [(''id'', JStr ''B'')])] =
     length [(KStr ''A'', JObj [(''id'', JStr ''A''), (''summary'', JStr ''old'')])] + 1 \<and>
   (1::nat) + 1 = length (filter has_id
     [JObj [(''id'', JStr ''A''), (''summary'', JStr ''new'')],
      JObj [(''id'', JStr ''B'')], JObj [(''id'', JStr [])]]) \<and>
   fst ` set [(KStr ''A'', JObj [(''id'', JStr ''A''), (''summary'', JStr ''old'')])] \<subseteq>
   fst ` set [(KStr ''A'', JObj [(''id'', JStr ''A''), (''summary'', JStr ''new'')]),
           (KStr ''B'', JObj [(''id'', JStr ''B'')])]"
  using merge_size [OF merge_example] by simp


section \<open>When the merge returns\<close>

text \<open>
  The merge loop raises only on an event that is not a dict or whose id is true and not
  hashable (a list or a dict): on every other list of events it returns.
\<close>

lemma merge_returns:
  assumes "\<forall>event \<in> set events. \<exists>event_id. py_get event ''id'' JNull = Inr event_id \<and>
             (truthy event_id \<longrightarrow> (\<exists>h. hash_key event_id = Inr h))"
  shows "\<exists>r. merge events d n u = Inr r"
  using assms
proof (induction events arbitrary: d n u)
  case Nil
  then show ?case by simp
next
  case (Cons event rest)
  from Cons.prems obtain event_id where
    g: "py_get event ''id'' JNull = Inr event_id" and
    h: "truthy event_id \<longrightarrow> (\<exists>h. hash_key event_id = Inr h)"
    by auto
  from Cons.prems have rest: "\<forall>event \<in> set rest. \<exists>event_id.
      py_get event ''id'' JNull = Inr event_id \<and>
      (truthy event_id \<longrightarrow> (\<exists>h. hash_key event_id = Inr h))"
    by simp
  show ?case
  proof (cases "truthy event_id")
    case False
    with g Cons.IH [OF rest] show ?thesis by simp
  next
    case True
    with h obtain k where "hash_key event_id = Inr k" by auto
    with g True Cons.IH [OF rest] show ?thesis by simp
  qed
qed

section \<open>What the normalizer emits\<close>

lemma fields_loop_begin:
  "fields_loop loads field_list be = Inr be' \<Longrightarrow>
   (if filter is_start_field field_list = [] then fst be' = fst be
    else decode_value loads (last (map field_value (filter is_start_field field_list))) =
           Inr (fst be'))"
proof (induction field_list arbitrary: be)
  case Nil
  then show ?case by simp
next
  case (Cons field rest)
  from Cons.prems obtain field_key field_value_str where
    k: "py_get field ''key'' JNull = Inr field_key" and
    v: "py_get field ''value'' JNull = Inr field_value_str"
    by (auto simp: ebind_eq_Inr)
  have fv: "field_value field = field_value_str"
    by (simp add: field_value_def v)
  show ?case
  proof (cases "field_value_str = JNull")
    case True
    then have nostart: "\<not> is_start_field field"
      by (simp add: is_start_field_def fv)
    from True Cons.prems k v have "fields_loop loads rest be = Inr be'"
      by simp
    from Cons.IH [OF this] nostart show ?thesis
      by simp
  next
    case False
    with Cons.prems k v obtain decoded where
      d: "decode_value loads field_value_str = Inr decoded"
      by (auto simp: ebind_eq_Inr)
    show ?thesis
    proof (cases "field_key = JStr ''start_date''")
      case True
      with False have start: "is_start_field field"
        by (simp add: is_start_field_def k fv)
      from True False Cons.prems k v d
      have "fields_loop loads rest (decoded, snd be) = Inr be'"
        by simp
      from Cons.IH [OF this] start fv d show ?thesis
        by (simp split: if_splits)
    next
      case nokey: False
      then have nostart: "\<not> is_start_field field"
        by (simp add: is_start_field_def k)
      from nokey False Cons.prems k v d
      have "\<exists>e. fields_loop loads rest (fst be, e) = Inr be'"
        by (cases be) (auto split: if_splits)
      then obtain e where "fields_loop loads rest (fst be, e) = Inr be'" ..
      from Cons.IH [OF this] nostart show ?thesis
        by simp
    qed
  qed
qed

lemma clean_post_Some:
  assumes "clean_post loads post = Inr (Some cleaned_event)"
  shows "start_date_values post \<noteq> [] \<and>
         (\<exists>begin. decode_value loads (last (start_date_values post)) = Inr begin \<and>
            py_getitem cleaned_event ''begin'' = Inr begin \<and> truthy begin) \<and>
         py_getitem cleaned_event ''id'' = py_get post ''id'' JNull"
proof -
  from assms obtain post_id field_list be where
    i: "py_get post ''id'' JNull = Inr post_id" and
    f: "post_fields post = Inr field_list" and
    l: "fields_loop loads field_list (JNull, JNull) = Inr be" and
    t: "truthy (fst be)" and
    b: "py_getitem cleaned_event ''begin'' = Inr (fst be)" and
    ci: "py_getitem cleaned_event ''id'' = Inr post_id"
    by (auto simp: clean_post_def ebind_eq_Inr split: if_splits)
  from fields_loop_begin [OF l] t
  have "filter is_start_field field_list \<noteq> [] \<and>
        decode_value loads (last (map field_value (filter is_start_field field_list))) =
          Inr (fst be)"
    by (auto split: if_splits)
  with f t b i ci show ?thesis
    by (simp add: start_date_values_def)
qed

lemma clean_posts_sound:
  "clean_posts loads posts = Inr cleaned_events \<Longrightarrow> cleaned_event \<in> set cleaned_events \<Longrightarrow>
   \<exists>post \<in> set posts. clean_post loads post = Inr (Some cleaned_event)"
proof (induction posts arbitrary: cleaned_events)
  case Nil
  then show ?case by simp
next
  case (Cons post rest)
  from Cons.prems(1) obtain cleaned more where
    c: "clean_post loads post = Inr cleaned" and
    r: "clean_posts loads rest = Inr more" and
    e: "cleaned_events = (case cleaned of Some ev \<Rightarrow> ev # more | None \<Rightarrow> more)"
    by (auto simp: ebind_eq_Inr)
  show ?case
  proof (cases "cleaned_event \<in> set more")
    case True
    from Cons.IH [OF r True] show ?thesis by auto
  next
    case False
    with e Cons.prems(2) have "cleaned = Some cleaned_event"
      by (cases cleaned) auto
    with c show ?thesis by simp
  qed
qed

lemma clean_data_sound:
  assumes "clean_data loads raw_data = Inr cleaned_events" "cleaned_event \<in> set cleaned_events"
  shows "\<exists>post \<in> set (raw_posts raw_data). clean_post loads post = Inr (Some cleaned_event)"
proof -
  from assms obtain missing where m: "shape_missing raw_data = Inr missing"
    by (auto simp: clean_data_def ebind_eq_Inr)
  from assms m have "\<not> missing"
    by (auto simp: clean_data_def)
  with assms(1) m obtain posts where
    p: "ebind (py_getitem raw_data ''data'') (\<lambda>data.
          ebind (py_getitem data ''posts'') (\<lambda>posts.
            ebind (py_getitem posts ''nodes'') py_iter)) = Inr posts" and
    c: "clean_posts loads posts = Inr cleaned_events"
    by (auto simp: clean_data_def ebind_eq_Inr)
  from p have "raw_posts raw_data = posts"
    by (simp add: raw_posts_def)
  with clean_posts_sound [OF c assms(2)] show ?thesis by simp
qed

text \<open>
  C4. Filter law: every event in the list that \<^verbatim>\<open>clean_data\<close> returns has a true begin
  (so neither null nor empty), and it is the event of a post of the payload that carries a
  start date: a post whose start-date field is absent or null yields no event.
\<close>

theorem filter_law:
  assumes "clean_data loads raw_data = Inr cleaned_events" "cleaned_event \<in> set cleaned_events"
  shows "(\<exists>begin. py_getitem cleaned_event ''begin'' = Inr begin \<and> truthy begin) \<and>
         (\<exists>post \<in> set (raw_posts raw_data).
            clean_post loads post = Inr (Some cleaned_event) \<and> start_date_values post \<noteq> [])"
proof -
  from clean_data_sound [OF assms] obtain post where
    "post \<in> set (raw_posts raw_data)" "clean_post loads post = Inr (Some cleaned_event)"
    by auto
  with clean_post_Some [OF this(2)] show ?thesis by auto
qed

theorem filter_law_witness:
  "(\<exists>begin. py_getitem demo_event ''begin'' = Inr begin \<and> truthy begin) \<and>
   (\<exists>post \<in> set (raw_posts demo_payload).
      clean_post loads_tab post = Inr (Some demo_event) \<and> start_date_values post \<noteq> [])"
  using filter_law [OF clean_data_demo, of demo_event] by simp

section \<open>The events of the store\<close>

lemma build_store_values:
  "build_store events d = Inr d' \<Longrightarrow> \<forall>event \<in> snd ` set d. has_id event \<Longrightarrow>
   \<forall>event \<in> snd ` set d'. has_id event"
proof (induction events arbitrary: d)
  case Nil
  then show ?case by simp
next
  case (Cons event rest)
  from Cons.prems(1) obtain event_id where g: "py_get event ''id'' JNull = Inr event_id"
    by (auto simp: ebind_eq_Inr)
  show ?case
  proof (cases "truthy event_id")
    case False
    with Cons g show ?thesis by simp
  next
    case True
    with Cons.prems(1) g obtain h where
      r: "build_store rest (AList.update h event d) = Inr d'"
      by (auto simp: ebind_eq_Inr)
    have "has_id event"
      using g True by (simp add: has_id_def)
    with Cons.prems(2) values_update [of h event d]
    have "\<forall>event \<in> snd ` set (AList.update h event d). has_id event"
      by blast
    from Cons.IH [OF r this] show ?thesis .
  qed
qed

lemma merge_values:
  "merge events d n u = Inr r \<Longrightarrow>
   snd ` set (fst r) \<subseteq> snd ` set d \<union> {event \<in> set events. has_id event}"
proof (induction events arbitrary: d n u)
  case Nil
  then show ?case by auto
next
  case (Cons event rest)
  from Cons.prems show ?case
  proof (cases rule: merge_Cons_cases)
    case (skip event_id)
    with Cons.IH [OF skip(3)] show ?thesis by auto
  next
    case (upd event_id h)
    with Cons.IH [OF upd(5)] values_update [of h event d] show ?thesis by auto
  next
    case (new event_id h)
    with Cons.IH [OF new(5)] values_update [of h event d] show ?thesis by auto
  qed
qed

lemma clean_post_has_begin:
  assumes "clean_post loads post = Inr (Some cleaned_event)"
  shows "has_begin cleaned_event"
proof -
  from clean_post_Some [OF assms] obtain b where
    b: "py_getitem cleaned_event ''begin'' = Inr b" "truthy b"
    by auto
  then obtain kvs where "cleaned_event = JObj kvs"
    by (cases cleaned_event) auto
  with b show ?thesis
    by (auto simp: has_begin_def split: option.splits)
qed

lemma new_events_have_begin:
  assumes "clean_data loads raw_data = Inr cleaned_events" "cleaned_event \<in> set cleaned_events"
  shows "has_begin cleaned_event"
proof -
  from clean_data_sound [OF assms] obtain post where
    "clean_post loads post = Inr (Some cleaned_event)" by auto
  then show ?thesis by (rule clean_post_has_begin)
qed

text \<open>
  C2, as the specification states it, fails: the comprehension that builds the store from
  the loaded file tests \<^verbatim>\<open>event.get('id')\<close> only, so an event of the file with a null
  begin stays in the store through the merge.
\<close>

theorem identity_invariant_counterexample:
  "merged_store loads_tab
     (\<lambda>f. if f = CLEANED_DATA_FILE then Text ''[{\"id\": \"A\", \"begin\": null}]'' else Missing)
     demo_payload =
     Inr [(KStr ''A'', JObj [(''id'', JStr ''A''), (''begin'', JNull)]),
          (KStr ''x1'', demo_event)] \<and>
   \<not> identity_invariant [(KStr ''A'', JObj [(''id'', JStr ''A''), (''begin'', JNull)]),
          (KStr ''x1'', demo_event)]"
  by (simp add: merged_store_def clean_data_demo load_store_def load_from_file_def
      loads_tab_store merge_new_def demo_event_def identity_invariant_def has_begin_def)

text \<open>
  C2, amended: every event of the store after the merge step has a non-empty id, and it
  has a non-null begin unless it is an event of the loaded file, for which the program
  does not check the begin.
\<close>

theorem store_events_amended:
  assumes "load_store loads fs = Inr loaded"
    "merged_store loads fs raw_response_data = Inr merged"
    "event \<in> snd ` set merged"
  shows "has_id event \<and> (has_begin event \<or> event \<in> snd ` set loaded)"
proof -
  from assms(1,2) obtain newly_cleaned_events where
    c: "clean_data loads raw_response_data = Inr newly_cleaned_events" and
    m: "merge_new loaded newly_cleaned_events = Inr merged"
    by (auto simp: merged_store_def ebind_eq_Inr)
  from assms(1) obtain events where "build_store events [] = Inr loaded"
    by (auto simp: load_store_def ebind_eq_Inr)
  from build_store_values [OF this] have loaded_ids: "\<forall>event \<in> snd ` set loaded. has_id event"
    by simp
  show ?thesis
  proof (cases "newly_cleaned_events = []")
    case True
    with m assms(3) loaded_ids show ?thesis
      by (auto simp: merge_new_def)
  next
    case False
    with m obtain r where r: "merge newly_cleaned_events loaded 0 0 = Inr r" "merged = fst r"
      by (auto simp: merge_new_def ebind_eq_Inr)
    from merge_values [OF r(1)] r(2) assms(3)
    consider "event \<in> snd ` set loaded" | "event \<in> set newly_cleaned_events" "has_id event"
      by auto
    then show ?thesis
    proof cases
      case 1
      with loaded_ids show ?thesis by auto
    next
      case 2
      from clean_data_sound [OF c 2(1)] obtain post where
        "clean_post loads post = Inr (Some event)" by auto
      from clean_post_has_begin [OF this] 2(2) show ?thesis by simp
    qed
  qed
qed

theorem store_events_amended_witness:
  "has_id demo_event \<and> has_begin demo_event \<and>
   has_id (JObj [(''id'', JStr ''A''), (''begin'', JNull)]) \<and>
   \<not> has_begin (JObj [(''id'', JStr ''A''), (''begin'', JNull)])"
proof -
  let ?fs = "\<lambda>f. if f = CLEANED_DATA_FILE then Text ''[{\"id\": \"A\", \"begin\": null}]'' else Missing"
  let ?old = "JObj [(''id'', JStr ''A''), (''begin'', JNull)]"
  have l: "load_store loads_tab ?fs = Inr [(KStr ''A'', ?old)]"
    by (simp add: load_store_def load_from_file_def loads_tab_store)
  have m: "merged_store loads_tab ?fs demo_payload =
             Inr [(KStr ''A'', ?old), (KStr ''x1'', demo_event)]"
    by (simp add: merged_store_def clean_data_demo l merge_new_def demo_event_def)
  have "has_id demo_event \<and> (has_begin demo_event \<or> demo_event \<in> snd ` set [(KStr ''A'', ?old)])"
    by (rule store_events_amended [OF l m]) simp
  moreover have "has_id ?old \<and> (has_begin ?old \<or> ?old \<in> snd ` set [(KStr ''A'', ?old)])"
    by (rule store_events_amended [OF l m]) simp
  ultimately show ?thesis
    by (simp add: demo_event_def has_begin_def)
qed


section \<open>Where the normalizer does return\<close>

text \<open>
  The guard gives the empty list for a false payload and for a missing key at each level,
  as long as the values above the missing key are dicts.
\<close>

lemma shape_guard_on_dicts:
  shows "\<not> truthy raw_data \<Longrightarrow> clean_data loads raw_data = Inr []"
    and "map_of kvs ''data'' = None \<Longrightarrow> kvs \<noteq> [] \<Longrightarrow> clean_data loads (JObj kvs) = Inr []"
    and "map_of kvs ''data'' = Some (JObj data) \<Longrightarrow> map_of data ''posts'' = None \<Longrightarrow>
         clean_data loads (JObj kvs) = Inr []"
    and "map_of kvs ''data'' = Some (JObj data) \<Longrightarrow> map_of data ''posts'' = Some (JObj posts) \<Longrightarrow>
         map_of posts ''nodes'' = None \<Longrightarrow> clean_data loads (JObj kvs) = Inr []"
proof -
  show "\<not> truthy raw_data \<Longrightarrow> clean_data loads raw_data = Inr []"
    by (simp add: clean_data_def shape_missing_def)
  show "map_of kvs ''data'' = None \<Longrightarrow> kvs \<noteq> [] \<Longrightarrow> clean_data loads (JObj kvs) = Inr []"
    by (simp add: clean_data_def shape_missing_def map_of_eq_None_iff)
  show "map_of kvs ''data'' = Some (JObj data) \<Longrightarrow> map_of data ''posts'' = None \<Longrightarrow>
        clean_data loads (JObj kvs) = Inr []"
    by (cases "kvs = []")
      (auto simp: clean_data_def shape_missing_def map_of_eq_None_iff dest: map_of_SomeD)
  show "map_of kvs ''data'' = Some (JObj data) \<Longrightarrow> map_of data ''posts'' = Some (JObj posts) \<Longrightarrow>
        map_of posts ''nodes'' = None \<Longrightarrow> clean_data loads (JObj kvs) = Inr []"
    by (cases "kvs = []")
      (auto simp: clean_data_def shape_missing_def map_of_eq_None_iff dest: map_of_SomeD)
qed

text \<open>
  A post is cleaned without an exception when it is a dict, its title and its description
  are strings or missing, its fields are missing, false or a list of dicts, and the
  decoder raises nothing but \<^verbatim>\<open>JSONDecodeError\<close> on the values of the fields.
\<close>

lemma decode_value_returns:
  assumes "\<forall>s e. loads s = Inl e \<longrightarrow> e = JSONDecodeError"
  shows "\<exists>v. decode_value loads field_value_str = Inr v"
proof (cases field_value_str)
  case (JStr s)
  with assms show ?thesis
    by (cases "loads s") (auto simp: decode_value_def)
qed (simp_all add: decode_value_def)

lemma fields_loop_returns:
  assumes "\<forall>s e. loads s = Inl e \<longrightarrow> e = JSONDecodeError"
  shows "\<forall>field \<in> set field_list. \<exists>kvs. field = JObj kvs \<Longrightarrow>
         \<exists>be'. fields_loop loads field_list be = Inr be'"
proof (induction field_list arbitrary: be)
  case Nil
  then show ?case by simp
next
  case (Cons field rest)
  then obtain kvs where f: "field = JObj kvs" by auto
  obtain v where "decode_value loads (case map_of kvs ''value'' of None \<Rightarrow> JNull | Some v \<Rightarrow> v) = Inr v"
    using decode_value_returns [OF assms] by blast
  with f Cons show ?case by simp
qed

lemma clean_post_returns:
  assumes "\<forall>s e. loads s = Inl e \<longrightarrow> e = JSONDecodeError"
    and "map_of kvs ''title'' = None \<or> (\<exists>s. map_of kvs ''title'' = Some (JStr s))"
    and "map_of kvs ''description'' = None \<or> (\<exists>s. map_of kvs ''description'' = Some (JStr s))"
    and "map_of kvs ''fields'' = None \<or>
         (\<exists>v. map_of kvs ''fields'' = Some v \<and> \<not> truthy v) \<or>
         (\<exists>fs. map_of kvs ''fields'' = Some (JArr fs) \<and> (\<forall>field \<in> set fs. \<exists>fkvs. field = JObj fkvs))"
  shows "\<exists>r. clean_post loads (JObj kvs) = Inr r"
proof -
  from assms(4) have "\<exists>field_list. post_fields (JObj kvs) = Inr field_list \<and>
      (\<forall>field \<in> set field_list. \<exists>fkvs. field = JObj fkvs)"
  proof (elim disjE exE conjE)
    assume "map_of kvs ''fields'' = None"
    then show ?thesis
      by (simp add: post_fields_def map_of_eq_None_iff)
  next
    fix v assume "map_of kvs ''fields'' = Some v" "\<not> truthy v"
    then show ?thesis
      by (auto simp: post_fields_def dest: map_of_SomeD)
  next
    fix fs assume "map_of kvs ''fields'' = Some (JArr fs)"
      "\<forall>field \<in> set fs. \<exists>fkvs. field = JObj fkvs"
    then show ?thesis
      by (cases "fs = []") (auto simp: post_fields_def dest: map_of_SomeD)
  qed
  then obtain field_list where f: "post_fields (JObj kvs) = Inr field_list"
    and d: "\<forall>field \<in> set field_list. \<exists>fkvs. field = JObj fkvs"
    by auto
  from fields_loop_returns [OF assms(1) d] obtain be where
    "fields_loop loads field_list (JNull, JNull) = Inr be" by blast
  with assms(2,3) f show ?thesis
    by (auto simp: clean_post_def)
qed

end
